theory Spec2Isabelle
  imports Main "HOL-Library.Sublist"
begin

section \<open>Text, glyphs and the runtime services of the renderer\<close>

text \<open>
  A Python \<open>str\<close> is a sequence of Unicode code points, and \<open>len\<close>, \<open>ljust\<close>
  and \<open>center\<close> count code points. A text is therefore a list of code points
  (natural numbers), not a list of bytes: every box-drawing glyph is one element.
\<close>

type_synonym ustr = "nat list"

definition lit :: "string \<Rightarrow> ustr" where
  "lit s = map of_char s"

definition SP :: nat where "SP = 32"

text \<open>The box-drawing glyphs of \<open>space.py\<close>.\<close>

definition BOX_V :: nat where "BOX_V = 0x2502"
definition BOX_H :: nat where "BOX_H = 0x2500"
definition BOX_TL :: nat where "BOX_TL = 0x250C"
definition BOX_TR :: nat where "BOX_TR = 0x2510"
definition BOX_BL :: nat where "BOX_BL = 0x2514"
definition BOX_BR :: nat where "BOX_BR = 0x2518"
definition BOX_LT :: nat where "BOX_LT = 0x251C"
definition BOX_RT :: nat where "BOX_RT = 0x2524"

text \<open>Values for display.\<close>

definition MAX_LINE_LENGTH :: nat where "MAX_LINE_LENGTH = 88"
definition CHART_WIDTH :: nat where "CHART_WIDTH = 59"
definition DATE_FMAT_STR :: ustr where "DATE_FMAT_STR = lit ''%a %B %d, %Y %I:%M %p %Z''"

text \<open>
  The escape sequences of the colorama constants the module uses
  (\<open>Fore.CYAN\<close>, \<open>Fore.GREEN\<close>, \<open>Fore.RESET\<close>, \<open>Style.BRIGHT\<close>,
  \<open>Style.RESET_ALL\<close>): \<open>ESC [ n m\<close>.
\<close>

definition ESC :: nat where "ESC = 27"

definition Fore_CYAN :: ustr where "Fore_CYAN = ESC # lit ''[36m''"
definition Fore_GREEN :: ustr where "Fore_GREEN = ESC # lit ''[32m''"
definition Fore_RESET :: ustr where "Fore_RESET = ESC # lit ''[39m''"
definition Style_BRIGHT :: ustr where "Style_BRIGHT = ESC # lit ''[1m''"
definition Style_RESET_ALL :: ustr where "Style_RESET_ALL = ESC # lit ''[0m''"

text \<open>
  What the module takes from the Python runtime and cannot be written down here:
  \<open>str\<close> of a field value, \<open>strftime\<close> of a date, and the Unicode database behind the
  regular-expression classes \<open>\w\<close> and \<open>\d\<close> for code points outside ASCII.
\<close>

record ('v, 'd) runtime =
  str_of :: "'v \<Rightarrow> ustr"
  strftime :: "'d \<Rightarrow> ustr \<Rightarrow> ustr"
  isalnum :: "nat \<Rightarrow> bool"
  isdecimal :: "nat \<Rightarrow> bool"

subsection \<open>\<open>str.ljust\<close> and \<open>str.center\<close>\<close>

text \<open>
  Neither method truncates: a text at least as long as the width is returned as it is.
  \<open>center\<close> puts \<open>marg div 2 + (marg & width & 1)\<close> fill characters on the left.
\<close>

definition ljust :: "nat \<Rightarrow> ustr \<Rightarrow> ustr" where
  "ljust width s = s @ replicate (width - length s) SP"

definition center :: "nat \<Rightarrow> ustr \<Rightarrow> ustr" where
  "center width s =
     (if width \<le> length s then s
      else let marg = width - length s;
               left = marg div 2 + (if odd marg \<and> odd width then 1 else 0)
           in replicate left SP @ s @ replicate (marg - left) SP)"

section \<open>The data model\<close>

datatype Verbosity = QUIET | NORMAL | VERBOSE

record 'd Event =
  mission_name :: ustr
  location :: ustr
  mission_date :: 'd
  mission_description :: ustr
  mission_type :: ustr

record ('v, 'd) Rocket =
  name :: ustr
  payload_leo :: 'v
  payload_gto :: 'v
  liftoff_thrust :: 'v
  liftoff_mass :: 'v
  max_stages :: 'v
  height :: 'v
  successful_launches :: 'v
  consecutive_successful_launches :: 'v
  failed_launches :: 'v
  maiden_flight_date :: 'd

record ('v, 'd) Launch = "'d Event" +
  rocket :: "('v, 'd) Rocket"

section \<open>The rocket panel\<close>

text \<open>
  \<open>print\<close> writes one line; a display method is modelled by the list of the lines it
  prints, in order.
\<close>

definition generate_chart_line :: "ustr \<Rightarrow> ustr \<Rightarrow> ustr" where
  "generate_chart_line left right =
     (let row = center (CHART_WIDTH div 2) left @ [BOX_V] @ center (CHART_WIDTH div 2) right
      in [BOX_V] @ center MAX_LINE_LENGTH ([BOX_V] @ center CHART_WIDTH row @ [BOX_V]) @ [BOX_V])"

definition INTER_CELL_DIVIDER :: ustr where
  "INTER_CELL_DIVIDER =
     [BOX_V] @ center MAX_LINE_LENGTH ([BOX_LT] @ replicate CHART_WIDTH BOX_H @ [BOX_RT]) @ [BOX_V]"

definition Rocket_display :: "('v, 'd) runtime \<Rightarrow> ('v, 'd) Rocket \<Rightarrow> ustr list" where
  "Rocket_display rt r =
     [ [BOX_V] @ center MAX_LINE_LENGTH ([BOX_TL] @ replicate CHART_WIDTH BOX_H @ [BOX_TR]) @ [BOX_V],
       [BOX_V] @ center MAX_LINE_LENGTH ([BOX_V] @ center CHART_WIDTH (name r) @ [BOX_V]) @ [BOX_V],
       INTER_CELL_DIVIDER,
       generate_chart_line (lit ''Height: '' @ str_of rt (height r) @ lit '' m'')
                           (lit ''Mass to LEO: '' @ str_of rt (payload_leo r) @ lit '' kg''),
       INTER_CELL_DIVIDER,
       generate_chart_line (lit ''Max Stages '' @ str_of rt (max_stages r))
                           (lit ''Liftoff Thrust: '' @ str_of rt (liftoff_thrust r) @ lit '' kN''),
       INTER_CELL_DIVIDER,
       generate_chart_line (lit ''Mass to GTO: '' @ str_of rt (payload_gto r) @ lit '' kg'')
                           (lit ''Liftoff Mass: '' @ str_of rt (liftoff_mass r) @ lit '' Tonnes''),
       INTER_CELL_DIVIDER,
       generate_chart_line (lit ''Launch Successes: '' @ str_of rt (successful_launches r))
                           (lit ''Maiden Flight: '' @ strftime rt (maiden_flight_date r) (lit ''%Y-%m-%d'')),
       INTER_CELL_DIVIDER,
       generate_chart_line (lit ''Consecutive Successes: '' @ str_of rt (consecutive_successful_launches r))
                           (lit ''Failed Launches: '' @ str_of rt (failed_launches r)),
       [BOX_V] @ center MAX_LINE_LENGTH ([BOX_BL] @ replicate CHART_WIDTH BOX_H @ [BOX_BR]) @ [BOX_V] ]"

section \<open>\<open>textwrap.wrap\<close>\<close>

text \<open>
  The module wraps the mission name and the description with \<open>textwrap.wrap\<close> of the
  Python standard library, with the defaults \<open>expand_tabs\<close>, \<open>replace_whitespace\<close>,
  \<open>drop_whitespace\<close>, \<open>break_long_words\<close>, \<open>break_on_hyphens\<close>, \<open>tabsize = 8\<close> and no
  \<open>max_lines\<close>. The functions below follow \<open>TextWrapper\<close> method by method.
\<close>

subsection \<open>Character classes\<close>

text \<open>The module's \<open>_whitespace\<close>, the six characters \<open>\t\n\x0b\x0c\r\<close> and space.\<close>

definition tw_whitespace :: "nat \<Rightarrow> bool" where
  "tw_whitespace c = ((9 \<le> c \<and> c \<le> 13) \<or> c = 32)"

text \<open>What \<open>str.strip()\<close> removes: the code points for which \<open>str.isspace\<close> holds.\<close>

definition py_isspace :: "nat \<Rightarrow> bool" where
  "py_isspace c =
     ((9 \<le> c \<and> c \<le> 13) \<or> (28 \<le> c \<and> c \<le> 32) \<or> c = 133 \<or> c = 160 \<or> c = 5760
      \<or> (8192 \<le> c \<and> c \<le> 8202) \<or> c = 8232 \<or> c = 8233 \<or> c = 8239 \<or> c = 8287
      \<or> c = 12288)"

text \<open>\<open>chunk.strip() == ''\<close>.\<close>

definition is_blank :: "ustr \<Rightarrow> bool" where
  "is_blank s = list_all py_isspace s"

definition HYPHEN :: nat where "HYPHEN = 45"

text \<open>
  The classes of the regular expression: \<open>\w\<close> is an alphanumeric character or the
  underscore, \<open>\d\<close> a decimal digit, \<open>word_punct\<close> is \<open>[\w!"'&.,?]\<close> and \<open>letter\<close> is
  \<open>[^\d\W]\<close>. Outside ASCII the runtime's Unicode database decides.
\<close>

definition re_w :: "('v, 'd) runtime \<Rightarrow> nat \<Rightarrow> bool" where
  "re_w rt c =
     (if c < 128 then (48 \<le> c \<and> c \<le> 57) \<or> (65 \<le> c \<and> c \<le> 90) \<or> (97 \<le> c \<and> c \<le> 122) \<or> c = 95
      else isalnum rt c)"

definition re_d :: "('v, 'd) runtime \<Rightarrow> nat \<Rightarrow> bool" where
  "re_d rt c = (if c < 128 then 48 \<le> c \<and> c \<le> 57 else isdecimal rt c)"

definition word_punct :: "('v, 'd) runtime \<Rightarrow> nat \<Rightarrow> bool" where
  "word_punct rt c =
     (re_w rt c \<or> c = 33 \<or> c = 34 \<or> c = 39 \<or> c = 38 \<or> c = 46 \<or> c = 44 \<or> c = 63)"

definition letter :: "('v, 'd) runtime \<Rightarrow> nat \<Rightarrow> bool" where
  "letter rt c = (re_w rt c \<and> \<not> re_d rt c)"

subsection \<open>\<open>_munge_whitespace\<close>\<close>

text \<open>
  \<open>str.expandtabs\<close>: a tab becomes the spaces up to the next multiple of the tab size;
  the column starts again after a line feed or a carriage return.
\<close>

fun expandtabs :: "nat \<Rightarrow> nat \<Rightarrow> ustr \<Rightarrow> ustr" where
  "expandtabs tabsize line_pos [] = []"
| "expandtabs tabsize line_pos (ch # text) =
     (if ch = 9 then
        (if 0 < tabsize then
           replicate (tabsize - line_pos mod tabsize) SP
             @ expandtabs tabsize (line_pos + (tabsize - line_pos mod tabsize)) text
         else expandtabs tabsize line_pos text)
      else ch # expandtabs tabsize (if ch = 10 \<or> ch = 13 then 0 else line_pos + 1) text)"

definition munge_whitespace :: "ustr \<Rightarrow> ustr" where
  "munge_whitespace text = map (\<lambda>c. if tw_whitespace c then SP else c) (expandtabs 8 0 text)"

subsection \<open>\<open>_split\<close>: the chunks matched by \<open>wordsep_re\<close>\<close>

text \<open>
  A position of the text is the text read so far, reversed, and the text from it on, so that
  the look-behind assertions can read what precedes a match.

  \<open>(?<=wp) -{2,} (?=\w)\<close>, the em-dash between words.
\<close>

definition em_dash_between :: "('v, 'd) runtime \<Rightarrow> ustr \<Rightarrow> ustr \<Rightarrow> bool" where
  "em_dash_between rt behind rest =
     (let dashes = takeWhile (\<lambda>c. c = HYPHEN) rest; after = dropWhile (\<lambda>c. c = HYPHEN) rest
      in behind \<noteq> [] \<and> word_punct rt (hd behind) \<and> 2 \<le> length dashes
         \<and> after \<noteq> [] \<and> re_w rt (hd after))"

text \<open>
  The three ways a word ends. \<open>hyphenated\<close> is
  \<open>-(?: (?<=lt{2}-) | (?<=lt-lt-)) (?= lt -? lt)\<close>, read at the hyphen that follows the
  text matched so far; \<open>em_dash_ahead\<close> is \<open>(?<=wp) (?=-{2,}\w)\<close>.
\<close>

definition hyphenated :: "('v, 'd) runtime \<Rightarrow> ustr \<Rightarrow> ustr \<Rightarrow> bool" where
  "hyphenated rt behind rest =
     (case rest of
        [] \<Rightarrow> False
      | h # after \<Rightarrow>
          h = HYPHEN
          \<and> (case behind of
                c1 # c2 # cs \<Rightarrow>
                  (letter rt c1 \<and> letter rt c2)
                  \<or> (letter rt c1 \<and> c2 = HYPHEN \<and> (case cs of c3 # _ \<Rightarrow> letter rt c3 | [] \<Rightarrow> False))
              | _ \<Rightarrow> False)
          \<and> (case after of
                a # b # cs \<Rightarrow>
                  letter rt a
                  \<and> ((b = HYPHEN \<and> (case cs of c # _ \<Rightarrow> letter rt c | [] \<Rightarrow> False)) \<or> letter rt b)
              | _ \<Rightarrow> False))"

definition em_dash_ahead :: "('v, 'd) runtime \<Rightarrow> ustr \<Rightarrow> ustr \<Rightarrow> bool" where
  "em_dash_ahead rt behind rest =
     (let dashes = takeWhile (\<lambda>c. c = HYPHEN) rest; after = dropWhile (\<lambda>c. c = HYPHEN) rest
      in behind \<noteq> [] \<and> word_punct rt (hd behind) \<and> 2 \<le> length dashes
         \<and> after \<noteq> [] \<and> re_w rt (hd after))"

text \<open>
  The lazy \<open>[^ws]+?\<close>: after the characters matched so far, how many more the word takes
  until one of the three endings holds; the hyphen of a hyphenated word belongs to it.
\<close>

fun word_end :: "('v, 'd) runtime \<Rightarrow> ustr \<Rightarrow> ustr \<Rightarrow> nat" where
  "word_end rt behind [] = 0"
| "word_end rt behind (c # rest) =
     (if hyphenated rt behind (c # rest) then 1
      else if tw_whitespace c then 0
      else if em_dash_ahead rt behind (c # rest) then 0
      else Suc (word_end rt (c # behind) rest))"

text \<open>The length of the match of \<open>wordsep_re\<close> at a position that is not the end.\<close>

definition match_len :: "('v, 'd) runtime \<Rightarrow> ustr \<Rightarrow> ustr \<Rightarrow> nat" where
  "match_len rt behind rest =
     (case rest of
        [] \<Rightarrow> 0
      | c # cs \<Rightarrow>
          if tw_whitespace c then Suc (length (takeWhile tw_whitespace cs))
          else if em_dash_between rt behind rest then Suc (length (takeWhile (\<lambda>c. c = HYPHEN) cs))
          else Suc (word_end rt (c # behind) cs))"

text \<open>
  \<open>wordsep_re.split\<close> without the empty strings. The expression matches at every position
  short of the end, so the pieces between the matches are all empty.
\<close>

function split_from :: "('v, 'd) runtime \<Rightarrow> ustr \<Rightarrow> ustr \<Rightarrow> ustr list" where
  "split_from rt behind rest =
     (if rest = [] then []
      else take (match_len rt behind rest) rest
             # split_from rt (rev (take (match_len rt behind rest) rest) @ behind)
                 (drop (match_len rt behind rest) rest))"
  by pat_completeness auto
termination
proof (relation "measure (\<lambda>(rt, behind, rest). length rest)")
  show "wf (measure (\<lambda>(rt, behind, rest). length rest))" by simp
next
  fix rt :: "('v, 'd) runtime" and behind rest :: ustr
  assume "rest \<noteq> []"
  then have "0 < match_len rt behind rest"
    by (cases rest) (simp_all add: match_len_def)
  with \<open>rest \<noteq> []\<close>
  show "((rt, rev (take (match_len rt behind rest) rest) @ behind,
          drop (match_len rt behind rest) rest), (rt, behind, rest))
        \<in> measure (\<lambda>(rt, behind, rest). length rest)"
    by simp
qed

definition split :: "('v, 'd) runtime \<Rightarrow> ustr \<Rightarrow> ustr list" where
  "split rt text = split_from rt [] text"

subsection \<open>\<open>_handle_long_word\<close> and \<open>_wrap_chunks\<close>\<close>

text \<open>\<open>chunk.rfind('-', 0, stop)\<close>: the last index below \<open>stop\<close> that holds the character.\<close>

definition rfind :: "nat \<Rightarrow> ustr \<Rightarrow> nat \<Rightarrow> nat option" where
  "rfind x s stop =
     (case filter (\<lambda>i. s ! i = x) (rev [0 ..< min stop (length s)]) of
        [] \<Rightarrow> None
      | i # _ \<Rightarrow> Some i)"

text \<open>
  The stack of chunks is a list with the next chunk first (Python reverses the list and
  pops from its end). \<open>cur_len\<close> is the total length of \<open>cur_line\<close> throughout, and is
  computed from it. The width left for a line can be negative when the indent is longer
  than the width, so it is an integer.
\<close>

definition handle_long_word :: "int \<Rightarrow> ustr list \<Rightarrow> ustr list \<Rightarrow> ustr list \<times> ustr list" where
  "handle_long_word width cur_line chunks =
     (let cur_len = length (concat cur_line);
          space_left = (if width < 1 then 1 else nat (width - int cur_len));
          chunk = hd chunks;
          endpos = (if space_left < length chunk then
                   (case rfind HYPHEN chunk space_left of
                      Some hyphen \<Rightarrow>
                        if 0 < hyphen \<and> list_ex (\<lambda>c. c \<noteq> HYPHEN) (take hyphen chunk)
                        then hyphen + 1 else space_left
                    | None \<Rightarrow> space_left)
                 else space_left)
      in (cur_line @ [take endpos chunk], drop endpos chunk # tl chunks))"

text \<open>The inner loop: chunks go to the current line while they fit.\<close>

fun fill_line :: "int \<Rightarrow> ustr list \<Rightarrow> ustr list \<Rightarrow> ustr list \<times> ustr list" where
  "fill_line width cur_line [] = (cur_line, [])"
| "fill_line width cur_line (chunk # chunks) =
     (if int (length (concat cur_line)) + int (length chunk) \<le> width
      then fill_line width (cur_line @ [chunk]) chunks
      else (cur_line, chunk # chunks))"

text \<open>One pass of the outer loop: the chunks left and the lines so far, after one line.\<close>

definition wrap_line :: "nat \<Rightarrow> ustr \<Rightarrow> ustr \<Rightarrow> ustr list \<Rightarrow> ustr list \<Rightarrow> ustr list \<times> ustr list" where
  "wrap_line width initial_indent subsequent_indent chunks lines =
     (let indent = (if lines \<noteq> [] then subsequent_indent else initial_indent);
          w = int width - int (length indent);
          chunks1 = (if is_blank (hd chunks) \<and> lines \<noteq> [] then tl chunks else chunks);
          (cur_line1, chunks2) = fill_line w [] chunks1;
          (cur_line2, chunks3) =
            (if chunks2 \<noteq> [] \<and> w < int (length (hd chunks2))
             then handle_long_word w cur_line1 chunks2 else (cur_line1, chunks2));
          cur_line3 =
            (if cur_line2 \<noteq> [] \<and> is_blank (last cur_line2) then butlast cur_line2 else cur_line2)
      in (chunks3, if cur_line3 \<noteq> [] then lines @ [indent @ concat cur_line3] else lines))"

text \<open>
  What is left to wrap: the characters and the chunks. A pass that leaves as much as it
  found has changed nothing, and the Python loop then repeats it for ever (an indent
  longer than the width can do that): not returning is the value \<open>None\<close>.
\<close>

definition pending :: "ustr list \<Rightarrow> nat" where
  "pending chunks = length (concat chunks) + length chunks"

function wrap_chunks :: "nat \<Rightarrow> ustr \<Rightarrow> ustr \<Rightarrow> ustr list \<Rightarrow> ustr list \<Rightarrow> ustr list option" where
  "wrap_chunks width initial_indent subsequent_indent chunks lines =
     (if chunks = [] then Some lines
      else if pending (fst (wrap_line width initial_indent subsequent_indent chunks lines))
                < pending chunks
      then wrap_chunks width initial_indent subsequent_indent
             (fst (wrap_line width initial_indent subsequent_indent chunks lines))
             (snd (wrap_line width initial_indent subsequent_indent chunks lines))
      else None)"
  by pat_completeness auto
termination
  by (relation "measure (\<lambda>(width, ii, si, chunks, lines). pending chunks)")
    (auto simp: split_beta)

text \<open>\<open>wrap\<close> raises \<open>ValueError\<close> for a width that is not positive: no list either.\<close>

definition wrap :: "('v, 'd) runtime \<Rightarrow> ustr \<Rightarrow> nat \<Rightarrow> ustr \<Rightarrow> ustr \<Rightarrow> ustr list option" where
  "wrap rt text width initial_indent subsequent_indent =
     (if width = 0 then None
      else wrap_chunks width initial_indent subsequent_indent (split rt (munge_whitespace text)) [])"

section \<open>\<open>Event.display\<close> and \<open>Launch.display\<close>\<close>

text \<open>
  The two methods print the same lines up to the label of the type line; the lines they
  share are named here. Each is the text between two border glyphs, left-justified to the
  line length, inside the colour codes where the source has them.
\<close>

definition FILLER :: ustr where
  "FILLER = [BOX_V] @ replicate MAX_LINE_LENGTH SP @ [BOX_V]"

definition mission_name_line :: "ustr \<Rightarrow> ustr" where
  "mission_name_line line =
     [BOX_V] @ Style_BRIGHT @ Fore_CYAN @ ljust MAX_LINE_LENGTH line @ Style_RESET_ALL @ [BOX_V]"

definition location_line :: "ustr \<Rightarrow> ustr" where
  "location_line loc = [BOX_V] @ Fore_CYAN @ ljust MAX_LINE_LENGTH loc @ Fore_RESET @ [BOX_V]"

definition date_line :: "ustr \<Rightarrow> ustr" where
  "date_line formatted =
     [BOX_V] @ Fore_GREEN @ ljust MAX_LINE_LENGTH (lit ''    '' @ formatted) @ Fore_RESET @ [BOX_V]"

definition plain_line :: "ustr \<Rightarrow> ustr" where
  "plain_line line = [BOX_V] @ ljust MAX_LINE_LENGTH line @ [BOX_V]"

text \<open>
  A method that prints is the list of the lines it prints, and \<open>None\<close> when a call of
  \<open>wrap\<close> in it gives no list. \<open>Event.display\<close> compares its argument with
  \<open>verbosity.QUIET\<close>, the member \<open>QUIET\<close> reached through the argument itself, and
  \<open>Launch.display\<close> with \<open>Verbosity.QUIET\<close>: the same member.
\<close>

definition Event_display :: "('v, 'd) runtime \<Rightarrow> 'd Event \<Rightarrow> Verbosity \<Rightarrow> ustr list option" where
  "Event_display rt e verbosity =
     (case wrap rt (mission_name e) MAX_LINE_LENGTH [] [] of
        None \<Rightarrow> None
      | Some mission_name_lines \<Rightarrow>
          (let out = map mission_name_line mission_name_lines
                     @ [location_line (location e)]
                     @ [FILLER]
                     @ [date_line (strftime rt (mission_date e) DATE_FMAT_STR)]
                     @ [plain_line (lit ''    Event Type: '' @ mission_type e)]
           in if verbosity \<noteq> QUIET then
                (case wrap rt (mission_description e) MAX_LINE_LENGTH (lit ''    '') (lit ''    '') of
                   None \<Rightarrow> None
                 | Some mission_description_lines \<Rightarrow>
                     Some (out @ [FILLER] @ map plain_line mission_description_lines))
              else Some out))"

definition Launch_display ::
  "('v, 'd) runtime \<Rightarrow> ('v, 'd) Launch \<Rightarrow> Verbosity \<Rightarrow> ustr list option" where
  "Launch_display rt l verbosity =
     (case wrap rt (mission_name l) MAX_LINE_LENGTH [] [] of
        None \<Rightarrow> None
      | Some mission_name_lines \<Rightarrow>
          (let out = map mission_name_line mission_name_lines
                     @ [location_line (location l)]
                     @ [FILLER]
                     @ [date_line (strftime rt (mission_date l) DATE_FMAT_STR)]
                     @ [plain_line (lit ''    Launch Type: '' @ mission_type l)]
           in if verbosity \<noteq> QUIET then
                (let out2 = (if verbosity = VERBOSE
                             then out @ [FILLER] @ Rocket_display rt (rocket l) else out)
                 in case wrap rt (mission_description l) MAX_LINE_LENGTH (lit ''    '') (lit ''    '') of
                      None \<Rightarrow> None
                    | Some mission_description_lines \<Rightarrow>
                        Some (out2 @ [FILLER] @ map plain_line mission_description_lines))
              else Some out))"

section \<open>The panel as the specification words it\<close>

text \<open>
  A rule is two corner or joint glyphs joined by \<open>C\<close> horizontal-rule glyphs; a data row
  is two cells, each centred in half the chart width, around a vertical divider, centred
  in the chart width and put between the panel's own borders. Either is then centred in
  the outer width and put between the outer borders.
\<close>

definition spec_outer :: "ustr \<Rightarrow> ustr" where
  "spec_outer s = BOX_V # center 88 s @ [BOX_V]"

definition spec_rule :: "nat \<Rightarrow> nat \<Rightarrow> ustr" where
  "spec_rule l r = spec_outer (l # replicate 59 BOX_H @ [r])"

definition spec_cell :: "ustr \<Rightarrow> ustr" where
  "spec_cell s = center (59 div 2) s"

definition spec_data_row :: "ustr \<Rightarrow> ustr \<Rightarrow> ustr" where
  "spec_data_row l r = spec_outer (BOX_V # center 59 (spec_cell l @ BOX_V # spec_cell r) @ [BOX_V])"

definition spec_divider :: ustr where
  "spec_divider = spec_rule BOX_LT BOX_RT"

definition spec_rocket_panel :: "('v, 'd) runtime \<Rightarrow> ('v, 'd) Rocket \<Rightarrow> ustr list" where
  "spec_rocket_panel rt r =
     [ spec_rule BOX_TL BOX_TR,
       spec_outer (BOX_V # center 59 (name r) @ [BOX_V]),
       spec_divider,
       spec_data_row (lit ''Height: '' @ str_of rt (height r) @ lit '' m'')
                     (lit ''Mass to LEO: '' @ str_of rt (payload_leo r) @ lit '' kg''),
       spec_divider,
       spec_data_row (lit ''Max Stages '' @ str_of rt (max_stages r))
                     (lit ''Liftoff Thrust: '' @ str_of rt (liftoff_thrust r) @ lit '' kN''),
       spec_divider,
       spec_data_row (lit ''Mass to GTO: '' @ str_of rt (payload_gto r) @ lit '' kg'')
                     (lit ''Liftoff Mass: '' @ str_of rt (liftoff_mass r) @ lit '' Tonnes''),
       spec_divider,
       spec_data_row (lit ''Launch Successes: '' @ str_of rt (successful_launches r))
                     (lit ''Maiden Flight: '' @ strftime rt (maiden_flight_date r) (lit ''%Y-%m-%d'')),
       spec_divider,
       spec_data_row (lit ''Consecutive Successes: '' @ str_of rt (consecutive_successful_launches r))
                     (lit ''Failed Launches: '' @ str_of rt (failed_launches r)),
       spec_rule BOX_BL BOX_BR ]"

section \<open>Notions the properties are stated with\<close>

text \<open>The characters of a text that are not whitespace, in order.\<close>

definition visible :: "ustr \<Rightarrow> ustr" where
  "visible s = filter (\<lambda>c. \<not> py_isspace c) s"

text \<open>
  Whitespace normalisation compares texts by their words, as \<open>str.split()\<close> gives them;
  \<open>join_spaces\<close> is \<open>" ".join\<close>.
\<close>

fun words_from :: "ustr \<Rightarrow> ustr \<Rightarrow> ustr list" where
  "words_from cur [] = (if cur = [] then [] else [cur])"
| "words_from cur (c # cs) =
     (if py_isspace c then (if cur = [] then words_from [] cs else cur # words_from [] cs)
      else words_from (cur @ [c]) cs)"

definition py_words :: "ustr \<Rightarrow> ustr list" where
  "py_words s = words_from [] s"

fun join_spaces :: "ustr list \<Rightarrow> ustr" where
  "join_spaces [] = []"
| "join_spaces [l] = l"
| "join_spaces (l # ls) = l @ SP # join_spaces ls"

text \<open>
  The colour and style codes the renderer puts around a text, each with the code that
  resets it, and a line made of a text inside such a pair inside the two borders.
\<close>

definition style_pairs :: "(ustr \<times> ustr) list" where
  "style_pairs =
     [([], []),
      (Style_BRIGHT @ Fore_CYAN, Style_RESET_ALL),
      (Fore_CYAN, Fore_RESET),
      (Fore_GREEN, Fore_RESET)]"

definition framed :: "ustr \<Rightarrow> ustr \<Rightarrow> ustr \<Rightarrow> ustr" where
  "framed on body off = [BOX_V] @ on @ body @ off @ [BOX_V]"

definition well_styled :: "ustr \<Rightarrow> bool" where
  "well_styled l =
     (\<exists>on body off. (on, off) \<in> set style_pairs \<and> l = framed on body off \<and> ESC \<notin> set body)"








definition styled_within :: "nat set \<Rightarrow> ustr \<Rightarrow> bool" where
  "styled_within D l =
     (\<exists>on body off. (on, off) \<in> set style_pairs \<and> l = framed on body off \<and> set body \<subseteq> D)"





text \<open>The lines of a method that returned, and no line otherwise.\<close>

definition printed :: "ustr list option \<Rightarrow> ustr list" where
  "printed out = (case out of Some ls \<Rightarrow> ls | None \<Rightarrow> [])"

section \<open>The example of the specification\<close>

text \<open>
  The runtime of the example: field values that are texts already (\<open>str\<close> of a text is
  the text), the two dates of the example with what \<open>strftime\<close> gives for the two
  formats the module uses, and no alphanumeric character outside ASCII.
\<close>

datatype example_date = NOV_1_2023_14_00_UTC | JUN_4_2010

definition example_strftime :: "example_date \<Rightarrow> ustr \<Rightarrow> ustr" where
  "example_strftime d fmt =
     (case d of
        NOV_1_2023_14_00_UTC \<Rightarrow>
          if fmt = lit ''%Y-%m-%d'' then lit ''2023-11-01''
          else lit ''Wed November 01, 2023 02:00 PM UTC''
      | JUN_4_2010 \<Rightarrow>
          if fmt = lit ''%Y-%m-%d'' then lit ''2010-06-04''
          else lit ''Fri June 04, 2010 12:00 AM '')"

definition example_runtime :: "(ustr, example_date) runtime" where
  "example_runtime =
     \<lparr>str_of = (\<lambda>s. s), strftime = example_strftime,
      isalnum = (\<lambda>c. False), isdecimal = (\<lambda>c. False)\<rparr>"

definition example_event :: "example_date Event" where
  "example_event =
     \<lparr>mission_name = lit ''Starlink Group 6-10'',
      location = lit ''Cape Canaveral SFS, FL, USA'',
      mission_date = NOV_1_2023_14_00_UTC,
      mission_description = lit ''A Falcon 9 rocket will launch...'',
      mission_type = lit ''Communications''\<rparr>"

definition example_rocket :: "(ustr, example_date) Rocket" where
  "example_rocket =
     \<lparr>name = lit ''Falcon 9'',
      payload_leo = lit ''22800'',
      payload_gto = lit ''8300'',
      liftoff_thrust = lit ''7607'',
      liftoff_mass = lit ''549'',
      max_stages = lit ''2'',
      height = lit ''70.0'',
      successful_launches = lit ''265'',
      consecutive_successful_launches = lit ''240'',
      failed_launches = lit ''2'',
      maiden_flight_date = JUN_4_2010\<rparr>"

definition example_launch :: "(ustr, example_date) Launch" where
  "example_launch =
     \<lparr>mission_name = lit ''Starlink Group 6-10'',
      location = lit ''Cape Canaveral SFS, FL, USA'',
      mission_date = NOV_1_2023_14_00_UTC,
      mission_description = lit ''A Falcon 9 rocket will launch...'',
      mission_type = lit ''Communications'',
      rocket = example_rocket\<rparr>"

text \<open>Inputs at the edge: a word and a location one character longer than the line, and
  a record whose name and description are whitespace.\<close>

definition long_word :: ustr where
  "long_word = replicate 89 (of_char CHR ''a'')"




declare wrap_chunks.simps [simp del]
declare split_from.simps [simp del]

section \<open>Properties of the rocket panel\<close>

lemma generate_chart_line_spec: "generate_chart_line l r = spec_data_row l r"
  by (simp add: generate_chart_line_def spec_data_row_def spec_outer_def spec_cell_def
      MAX_LINE_LENGTH_def CHART_WIDTH_def)

lemma INTER_CELL_DIVIDER_spec: "INTER_CELL_DIVIDER = spec_divider"
  by (simp add: INTER_CELL_DIVIDER_def spec_divider_def spec_rule_def spec_outer_def
      MAX_LINE_LENGTH_def CHART_WIDTH_def)

text \<open>
  C1. For every rocket the panel is the fixed sequence top rule, title row, divider,
  data row 1, divider, data row 2, divider, data row 3, divider, data row 4, divider,
  data row 5, bottom rule; each data row is two cells centred in half the chart width
  around a vertical divider, centred in the chart width and then in the outer width,
  with the cell contents in the order of the specification.
\<close>

theorem C1_rocket_panel_sequence: "Rocket_display rt r = spec_rocket_panel rt r"
  unfolding Rocket_display_def spec_rocket_panel_def
    generate_chart_line_spec INTER_CELL_DIVIDER_spec
  by (simp add: spec_rule_def spec_outer_def MAX_LINE_LENGTH_def CHART_WIDTH_def)

section \<open>Properties of \<open>wrap\<close>\<close>

subsection \<open>The inner loop and the long word\<close>

lemma fill_line_app: "fill_line w cur chunks = (a, b) \<Longrightarrow> a @ b = cur @ chunks"
  by (induction w cur chunks rule: fill_line.induct) (auto split: if_splits)

lemma fill_line_fits:
  "fill_line w cur chunks = (a, b) \<Longrightarrow> int (length (concat cur)) \<le> w \<Longrightarrow> int (length (concat a)) \<le> w"
  by (induction w cur chunks rule: fill_line.induct) (auto split: if_splits)

lemma fill_line_full:
  "fill_line w cur chunks = (a, b) \<Longrightarrow> b \<noteq> [] \<Longrightarrow> w < int (length (concat a)) + int (length (hd b))"
  by (induction w cur chunks rule: fill_line.induct) (auto split: if_splits)

lemma rfind_bound: "rfind x s stop = Some i \<Longrightarrow> i < stop \<and> i < length s"
proof -
  assume a: "rfind x s stop = Some i"
  then obtain r where "filter (\<lambda>i. s ! i = x) (rev [0 ..< min stop (length s)]) = i # r"
    by (auto simp: rfind_def split: list.splits)
  then have "i \<in> set (filter (\<lambda>i. s ! i = x) (rev [0 ..< min stop (length s)]))"
    by (metis list.set_intros(1))
  then show ?thesis by auto
qed

lemma handle_long_word_props:
  assumes "handle_long_word w cur chunks = (a, b)" and "1 \<le> w" and "int (length (concat cur)) \<le> w"
  shows "\<exists>k. a = cur @ [take k (hd chunks)] \<and> b = drop k (hd chunks) # tl chunks
            \<and> int (length (concat cur)) + int k \<le> w \<and> (cur = [] \<longrightarrow> 1 \<le> k)"
proof -
  let ?sl = "nat (w - int (length (concat cur)))"
  define k where "k = (if ?sl < length (hd chunks) then
                   (case rfind HYPHEN (hd chunks) ?sl of
                      Some hyphen \<Rightarrow>
                        if 0 < hyphen \<and> list_ex (\<lambda>c. c \<noteq> HYPHEN) (take hyphen (hd chunks))
                        then hyphen + 1 else ?sl
                    | None \<Rightarrow> ?sl)
                 else ?sl)"
  have ab: "a = cur @ [take k (hd chunks)]" "b = drop k (hd chunks) # tl chunks"
    using assms by (auto simp: handle_long_word_def Let_def k_def)
  have k1: "k \<le> ?sl"
    by (auto simp: k_def split: option.splits dest: rfind_bound)
  have k2: "cur = [] \<Longrightarrow> 1 \<le> k"
    using assms(2) by (auto simp: k_def split: option.splits)
  from k1 assms(3) have "int (length (concat cur)) + int k \<le> w" by linarith
  with ab k2 show ?thesis by blast
qed

subsection \<open>One pass of the outer loop\<close>

lemma pending_Cons: "pending (c # cs) = Suc (length c + pending cs)"
  by (simp add: pending_def)

lemma pending_append: "pending (a @ b) = pending a + pending b"
  by (simp add: pending_def)

lemma is_blank_append: "is_blank (a @ b) = (is_blank a \<and> is_blank b)"
  by (simp add: is_blank_def)

text \<open>One pass of the outer loop, when the line has room for a character.\<close>

lemma wrap_line_props:
  assumes ne: "chunks \<noteq> []"
    and wl: "wrap_line width ii si chunks lines = (chunks', lines')"
    and ind: "indent = (if lines \<noteq> [] then si else ii)"
    and room: "length indent < width"
  shows "\<exists>dropped cur2 cur3.
           concat dropped @ concat cur2 @ concat chunks' = concat chunks
           \<and> list_all is_blank dropped
           \<and> (cur2 = cur3 \<or> (\<exists>b. cur2 = cur3 @ [b] \<and> is_blank b))
           \<and> length indent + length (concat cur2) \<le> width
           \<and> lines' = (if cur3 \<noteq> [] then lines @ [indent @ concat cur3] else lines)
           \<and> pending chunks' < pending chunks"
proof -
  define w where "w = int width - int (length indent)"
  have w1: "1 \<le> w" using room by (simp add: w_def)
  define chunks1 where "chunks1 = (if is_blank (hd chunks) \<and> lines \<noteq> [] then tl chunks else chunks)"
  define dropped where "dropped = (if is_blank (hd chunks) \<and> lines \<noteq> [] then [hd chunks] else [])"
  have d1: "dropped @ chunks1 = chunks" "list_all is_blank dropped"
    using ne by (auto simp: dropped_def chunks1_def)
  obtain cur1 chunks2 where f: "fill_line w [] chunks1 = (cur1, chunks2)"
    by (cases "fill_line w [] chunks1") auto
  have f1: "cur1 @ chunks2 = chunks1" using fill_line_app[OF f] by simp
  have f2: "int (length (concat cur1)) \<le> w" using fill_line_fits[OF f] w1 by simp
  have f3: "chunks2 \<noteq> [] \<Longrightarrow> w < int (length (concat cur1)) + int (length (hd chunks2))"
    using fill_line_full[OF f] by simp
  obtain cur2 chunks3 where h: "(if chunks2 \<noteq> [] \<and> w < int (length (hd chunks2))
             then handle_long_word w cur1 chunks2 else (cur1, chunks2)) = (cur2, chunks3)"
    by (cases "(if chunks2 \<noteq> [] \<and> w < int (length (hd chunks2))
             then handle_long_word w cur1 chunks2 else (cur1, chunks2))") auto
  define cur3 where "cur3 = (if cur2 \<noteq> [] \<and> is_blank (last cur2) then butlast cur2 else cur2)"
  have res: "chunks' = chunks3" "lines' = (if cur3 \<noteq> [] then lines @ [indent @ concat cur3] else lines)"
    using wl f h unfolding wrap_line_def Let_def ind[symmetric] w_def[symmetric]
      chunks1_def[symmetric] cur3_def
    by simp_all
  have c3: "cur2 = cur3 \<or> (\<exists>b. cur2 = cur3 @ [b] \<and> is_blank b)"
    unfolding cur3_def by (metis append_butlast_last_id)
  have main: "concat cur2 @ concat chunks3 = concat chunks1
              \<and> int (length (concat cur2)) \<le> w
              \<and> (cur1 = [] \<longrightarrow> chunks1 \<noteq> [] \<longrightarrow> pending chunks3 < pending chunks1)
              \<and> pending chunks3 \<le> pending chunks2"
  proof (cases "chunks2 \<noteq> [] \<and> w < int (length (hd chunks2))")
    case True
    with h have hh: "handle_long_word w cur1 chunks2 = (cur2, chunks3)" by simp
    from handle_long_word_props[OF hh w1 f2] obtain k where
      k: "cur2 = cur1 @ [take k (hd chunks2)]" "chunks3 = drop k (hd chunks2) # tl chunks2"
         "int (length (concat cur1)) + int k \<le> w" "cur1 = [] \<longrightarrow> 1 \<le> k"
      by blast
    from True obtain c cs where c2: "chunks2 = c # cs" by (cases chunks2) auto
    have "concat cur2 @ concat chunks3 = concat cur1 @ concat chunks2"
      using k c2 by simp
    moreover have "int (length (concat cur2)) \<le> w" using k True c2 by simp
    moreover have "pending chunks3 \<le> pending chunks2" using k c2 by (simp add: pending_Cons)
    moreover have "cur1 = [] \<Longrightarrow> pending chunks3 < pending chunks1"
      using k c2 f1 True by (auto simp: pending_Cons)
    ultimately show ?thesis using f1 by (metis concat_append)
  next
    case False
    with h have e: "cur2 = cur1" "chunks3 = chunks2" by auto
    have "cur1 = [] \<Longrightarrow> chunks1 \<noteq> [] \<Longrightarrow> False"
      using f1 f3 False by auto
    then show ?thesis using e f1 f2 by (metis concat_append order_refl)
  qed
  have prog: "pending chunks3 < pending chunks"
  proof (cases "cur1 = []")
    case True
    show ?thesis
    proof (cases "chunks1 = []")
      case True
      then have "pending chunks2 = 0" using f1 by (simp add: pending_def)
      with main have "pending chunks3 = 0" by simp
      moreover have "0 < pending chunks" using ne by (cases chunks) (simp_all add: pending_Cons)
      ultimately show ?thesis by simp
    next
      case False
      with main True have "pending chunks3 < pending chunks1" by simp
      also have "\<dots> \<le> pending chunks" using d1 by (metis pending_append le_add2)
      finally show ?thesis .
    qed
  next
    case False
    then have "pending chunks2 < pending chunks1"
      using f1 by (cases cur1) (auto simp: pending_append[of cur1 chunks2, symmetric] pending_def)
    moreover have "pending chunks1 \<le> pending chunks" using d1 by (metis pending_append le_add2)
    ultimately show ?thesis using main by linarith
  qed
  have "concat dropped @ concat cur2 @ concat chunks' = concat chunks"
    using main d1 res by (metis concat_append)
  moreover have "length indent + length (concat cur2) \<le> width"
    using main by (simp add: w_def)
  ultimately show ?thesis using d1 c3 res prog by blast
qed

subsection \<open>The outer loop returns, and keeps what a pass keeps\<close>

lemma wrap_chunks_returns:
  "length ii < width \<Longrightarrow> length si < width \<Longrightarrow> \<exists>ls. wrap_chunks width ii si chunks lines = Some ls"
proof (induction width ii si chunks lines rule: wrap_chunks.induct)
  case (1 width ii si chunks lines)
  show ?case
  proof (cases "chunks = []")
    case True
    then show ?thesis by (simp add: wrap_chunks.simps)
  next
    case False
    obtain chunks' lines' where wl: "wrap_line width ii si chunks lines = (chunks', lines')"
      by (cases "wrap_line width ii si chunks lines") auto
    have "length (if lines \<noteq> [] then si else ii) < width" using 1(2,3) by simp
    from wrap_line_props[OF False wl refl this] have p: "pending chunks' < pending chunks" by blast
    with 1(1)[OF False _ 1(2,3)] wl False show ?thesis
      by (subst wrap_chunks.simps) simp
  qed
qed

lemma wrap_chunks_invariant:
  assumes res: "wrap_chunks width ii si chunks lines = Some ls"
    and step: "\<And>chunks lines chunks' lines'. chunks \<noteq> [] \<Longrightarrow>
                 wrap_line width ii si chunks lines = (chunks', lines') \<Longrightarrow>
                 I chunks lines \<Longrightarrow> I chunks' lines'"
    and init: "I chunks lines"
  shows "I [] ls"
  using res step init
proof (induction width ii si chunks lines rule: wrap_chunks.induct)
  case (1 width ii si chunks lines)
  show ?case
  proof (cases "chunks = []")
    case True
    with 1(2,4) show ?thesis by (simp add: wrap_chunks.simps)
  next
    case False
    obtain chunks' lines' where wl: "wrap_line width ii si chunks lines = (chunks', lines')"
      by (cases "wrap_line width ii si chunks lines") auto
    from 1(2) False wl have p: "pending chunks' < pending chunks"
      and r: "wrap_chunks width ii si chunks' lines' = Some ls"
      by (subst (asm) wrap_chunks.simps, simp split: if_splits)+
    have i: "I chunks' lines'" using 1(3)[OF False wl 1(4)] .
    have "pending (fst (wrap_line width ii si chunks lines)) < pending chunks"
      using p wl by simp
    from 1(1)[OF False this] r wl 1(3) i show ?thesis by simp
  qed
qed

subsection \<open>Width, indent, and the characters of the lines\<close>

lemma visible_append: "visible (a @ b) = visible a @ visible b"
  by (simp add: visible_def)

lemma visible_blank: "is_blank s \<Longrightarrow> visible s = []"
  by (induction s) (auto simp: visible_def is_blank_def)

lemma visible_Nil: "visible [] = []"
  by (simp add: visible_def)

lemma visible_concat_blank: "list_all is_blank xs \<Longrightarrow> visible (concat xs) = []"
  by (induction xs) (simp_all add: visible_append visible_blank visible_Nil)

lemma wrap_chunks_width:
  assumes "wrap_chunks width ii si chunks lines = Some ls"
    and "length ii < width" and "length si < width"
    and "\<forall>l\<in>set lines. length l \<le> width"
  shows "\<forall>l\<in>set ls. length l \<le> width"
proof (rule wrap_chunks_invariant[OF assms(1), where I = "\<lambda>_ lines. \<forall>l\<in>set lines. length l \<le> width"])
  fix chunks lines chunks' lines'
  assume ne: "chunks \<noteq> []" and wl: "wrap_line width ii si chunks lines = (chunks', lines')"
    and i: "\<forall>l\<in>set lines. length l \<le> width"
  have "length (if lines \<noteq> [] then si else ii) < width" using assms(2,3) by simp
  from wrap_line_props[OF ne wl refl this] obtain cur2 cur3 where
    c: "cur2 = cur3 \<or> (\<exists>b. cur2 = cur3 @ [b] \<and> is_blank b)"
    and n: "length (if lines \<noteq> [] then si else ii) + length (concat cur2) \<le> width"
    and l: "lines' = (if cur3 \<noteq> [] then lines @ [(if lines \<noteq> [] then si else ii) @ concat cur3] else lines)"
    by blast
  from c have "length (concat cur3) \<le> length (concat cur2)" by auto
  with n have "length ((if lines \<noteq> [] then si else ii) @ concat cur3) \<le> width" by simp
  with i l show "\<forall>l\<in>set lines'. length l \<le> width" by auto
qed (rule assms(4))

lemma wrap_chunks_indent:
  assumes "wrap_chunks width ii si chunks lines = Some ls"
    and "length ii < width" and "length si < width"
    and "\<forall>l\<in>set lines. prefix ii l \<or> prefix si l"
  shows "\<forall>l\<in>set ls. prefix ii l \<or> prefix si l"
proof (rule wrap_chunks_invariant[OF assms(1), where I = "\<lambda>_ lines. \<forall>l\<in>set lines. prefix ii l \<or> prefix si l"])
  fix chunks lines chunks' lines'
  assume ne: "chunks \<noteq> []" and wl: "wrap_line width ii si chunks lines = (chunks', lines')"
    and i: "\<forall>l\<in>set lines. prefix ii l \<or> prefix si l"
  have "length (if lines \<noteq> [] then si else ii) < width" using assms(2,3) by simp
  from wrap_line_props[OF ne wl refl this] obtain cur3 where
    l: "lines' = (if cur3 \<noteq> [] then lines @ [(if lines \<noteq> [] then si else ii) @ concat cur3] else lines)"
    by blast
  with i show "\<forall>l\<in>set lines'. prefix ii l \<or> prefix si l" by auto
qed (rule assms(4))

lemma wrap_chunks_visible:
  assumes "wrap_chunks width ii si chunks lines = Some ls"
    and "length ii < width" and "length si < width"
    and "is_blank ii" and "is_blank si"
  shows "visible (concat ls) = visible (concat lines) @ visible (concat chunks)"
proof -
  have "visible (concat ls) @ visible (concat []) = visible (concat lines) @ visible (concat chunks)"
  proof (rule wrap_chunks_invariant[OF assms(1), where I = "\<lambda>c l. visible (concat l) @ visible (concat c)
            = visible (concat lines) @ visible (concat chunks)"])
    fix chunks0 lines0 chunks' lines'
    assume ne: "chunks0 \<noteq> []" and wl: "wrap_line width ii si chunks0 lines0 = (chunks', lines')"
      and i: "visible (concat lines0) @ visible (concat chunks0) = visible (concat lines) @ visible (concat chunks)"
    let ?ind = "if lines0 \<noteq> [] then si else ii"
    have "length ?ind < width" using assms(2,3) by simp
    from wrap_line_props[OF ne wl refl this] obtain dropped cur2 cur3 where
      e: "concat dropped @ concat cur2 @ concat chunks' = concat chunks0"
      and d: "list_all is_blank dropped"
      and c: "cur2 = cur3 \<or> (\<exists>b. cur2 = cur3 @ [b] \<and> is_blank b)"
      and l: "lines' = (if cur3 \<noteq> [] then lines0 @ [?ind @ concat cur3] else lines0)"
      by blast
    have bi: "visible ?ind = []" using assms(4,5) by (simp add: visible_blank)
    from c have c3: "visible (concat cur3) = visible (concat cur2)"
      by (auto simp: visible_append visible_blank)
    have "visible (concat lines') = visible (concat lines0) @ visible (concat cur3)"
      using l bi by (cases "cur3 = []") (simp_all add: visible_append visible_def)
    moreover have "visible (concat chunks0) = visible (concat cur2) @ visible (concat chunks')"
      using e[symmetric] d by (simp add: visible_append visible_concat_blank)
    ultimately show "visible (concat lines') @ visible (concat chunks')
        = visible (concat lines) @ visible (concat chunks)"
      using i c3 by simp
  qed simp
  then show ?thesis by (simp add: visible_def)
qed


subsection \<open>Whitespace and the chunks\<close>

lemma tw_whitespace_isspace: "tw_whitespace c \<Longrightarrow> py_isspace c"
  by (auto simp: tw_whitespace_def py_isspace_def)

lemma SP_isspace: "py_isspace SP"
  by (simp add: py_isspace_def SP_def)

lemma visible_replicate_SP: "visible (replicate n SP) = []"
  by (simp add: visible_def SP_isspace)

lemma visible_expandtabs: "visible (expandtabs ts col tx) = visible tx"
proof (induction ts col tx rule: expandtabs.induct)
  case (1 ts col)
  show ?case by simp
next
  case (2 ts col ch tx)
  have "py_isspace 9" by (simp add: py_isspace_def)
  with 2 show ?case
    by (auto simp: visible_append visible_replicate_SP) (simp_all add: visible_def)
qed

lemma visible_munge: "visible (munge_whitespace tx) = visible tx"
proof -
  have "visible (map (\<lambda>c. if tw_whitespace c then SP else c) s) = visible s" for s
    by (induction s) (auto simp: visible_def SP_isspace tw_whitespace_isspace)
  then show ?thesis by (simp add: munge_whitespace_def visible_expandtabs)
qed





lemma concat_split_from: "concat (split_from rt behind rest) = rest"
proof (induction rt behind rest rule: split_from.induct)
  case (1 rt behind rest)
  show ?case
  proof (cases "rest = []")
    case True
    then show ?thesis by (simp add: split_from.simps)
  next
    case False
    with 1 show ?thesis by (subst split_from.simps) simp
  qed
qed


lemma rfind_None: "x \<notin> set s \<Longrightarrow> rfind x s stop = None"
proof -
  assume "x \<notin> set s"
  then have "filter (\<lambda>i. s ! i = x) (rev [0 ..< min stop (length s)]) = []"
    by (auto simp: filter_empty_conv)
  then show ?thesis by (simp add: rfind_def)
qed






subsection \<open>\<open>wrap\<close> itself\<close>

lemma wrap_returns:
  "length ii < width \<Longrightarrow> length si < width \<Longrightarrow> \<exists>ls. wrap rt tx width ii si = Some ls"
  using wrap_chunks_returns[of ii width si] by (auto simp: wrap_def)

lemma wrap_width:
  "wrap rt tx width ii si = Some ls \<Longrightarrow> length ii < width \<Longrightarrow> length si < width \<Longrightarrow>
   \<forall>l\<in>set ls. length l \<le> width"
  using wrap_chunks_width[of width ii si _ "[]" ls] by (auto simp: wrap_def split: if_splits)

lemma wrap_indent:
  "wrap rt tx width ind ind = Some ls \<Longrightarrow> length ind < width \<Longrightarrow> \<forall>l\<in>set ls. prefix ind l"
  using wrap_chunks_indent[of width ind ind _ "[]" ls] by (auto simp: wrap_def split: if_splits)

lemma wrap_visible:
  "wrap rt tx width ii si = Some ls \<Longrightarrow> length ii < width \<Longrightarrow> length si < width \<Longrightarrow>
   is_blank ii \<Longrightarrow> is_blank si \<Longrightarrow> visible (concat ls) = visible tx"
  using wrap_chunks_visible[of width ii si "split rt (munge_whitespace tx)" "[]" ls]
  by (auto simp: wrap_def split_def concat_split_from visible_munge visible_Nil split: if_splits)



section \<open>Properties of the lines\<close>



















section \<open>Properties of \<open>Event.display\<close> and \<open>Launch.display\<close>\<close>

lemma is_blank_indent: "is_blank (lit ''    '')"
  by (simp add: is_blank_def lit_def py_isspace_def)

lemma room_name: "length ([]::ustr) < MAX_LINE_LENGTH"
  by (simp add: MAX_LINE_LENGTH_def)

lemma room_indent: "length (lit ''    '') < MAX_LINE_LENGTH"
  by (simp add: MAX_LINE_LENGTH_def lit_def)

text \<open>The lines a method prints before the optional sections.\<close>

lemma Event_display_form:
  obtains names descs where
    "wrap rt (mission_name e) MAX_LINE_LENGTH [] [] = Some names"
    "wrap rt (mission_description e) MAX_LINE_LENGTH (lit ''    '') (lit ''    '') = Some descs"
    "Event_display rt e v =
       Some (map mission_name_line names
             @ [location_line (location e), FILLER,
                date_line (strftime rt (mission_date e) DATE_FMAT_STR),
                plain_line (lit ''    Event Type: '' @ mission_type e)]
             @ (if v = QUIET then [] else FILLER # map plain_line descs))"
proof -
  obtain names where n: "wrap rt (mission_name e) MAX_LINE_LENGTH [] [] = Some names"
    using wrap_returns[OF room_name room_name] by blast
  obtain descs where d: "wrap rt (mission_description e) MAX_LINE_LENGTH (lit ''    '') (lit ''    '') = Some descs"
    using wrap_returns[OF room_indent room_indent] by blast
  show ?thesis
    by (rule that[OF n d]) (simp add: Event_display_def n d)
qed

lemma Launch_display_form:
  obtains names descs where
    "wrap rt (mission_name l) MAX_LINE_LENGTH [] [] = Some names"
    "wrap rt (mission_description l) MAX_LINE_LENGTH (lit ''    '') (lit ''    '') = Some descs"
    "Launch_display rt l v =
       Some (map mission_name_line names
             @ [location_line (location l), FILLER,
                date_line (strftime rt (mission_date l) DATE_FMAT_STR),
                plain_line (lit ''    Launch Type: '' @ mission_type l)]
             @ (if v = VERBOSE then FILLER # Rocket_display rt (rocket l) else [])
             @ (if v = QUIET then [] else FILLER # map plain_line descs))"
proof -
  obtain names where n: "wrap rt (mission_name l) MAX_LINE_LENGTH [] [] = Some names"
    using wrap_returns[OF room_name room_name] by blast
  obtain descs where d: "wrap rt (mission_description l) MAX_LINE_LENGTH (lit ''    '') (lit ''    '') = Some descs"
    using wrap_returns[OF room_indent room_indent] by blast
  show ?thesis
    by (rule that[OF n d]) (simp add: Launch_display_def n d)
qed

subsection \<open>A text that fits one line\<close>

lemma fill_line_all:
  "int (length (concat cur)) + int (length (concat chunks)) \<le> w \<Longrightarrow>
   fill_line w cur chunks = (cur @ chunks, [])"
  by (induction w cur chunks rule: fill_line.induct) auto

lemma wrap_chunks_one_line:
  assumes "chunks \<noteq> []" and "length ii + length (concat chunks) \<le> width"
    and "\<not> is_blank (last chunks)"
  shows "wrap_chunks width ii si chunks [] = Some [ii @ concat chunks]"
proof -
  have "fill_line (int width - int (length ii)) [] chunks = (chunks, [])"
    using fill_line_all[of "[]" chunks "int width - int (length ii)"] assms(2) by simp
  then have "wrap_line width ii si chunks [] = ([], [ii @ concat chunks])"
    using assms(1,3) by (simp add: wrap_line_def Let_def)
  moreover have "0 < pending chunks" using assms(1) by (cases chunks) (simp_all add: pending_Cons)
  ultimately show ?thesis
    using assms(1) by (subst wrap_chunks.simps) (simp add: wrap_chunks.simps pending_def)
qed

lemma match_len_pos: "rest \<noteq> [] \<Longrightarrow> 0 < match_len rt behind rest"
  by (cases rest) (simp_all add: match_len_def)

lemma split_from_last:
  "rest \<noteq> [] \<Longrightarrow> split_from rt behind rest \<noteq> [] \<and> last (last (split_from rt behind rest)) = last rest
     \<and> last (split_from rt behind rest) \<noteq> []"
proof (induction rt behind rest rule: split_from.induct)
  case (1 rt behind rest)
  let ?n = "match_len rt behind rest"
  have n: "0 < ?n" using match_len_pos[OF 1(2)] .
  have s: "split_from rt behind rest
           = take ?n rest # split_from rt (rev (take ?n rest) @ behind) (drop ?n rest)"
    using 1(2) by (subst split_from.simps) simp
  show ?case
  proof (cases "drop ?n rest = []")
    case True
    then have "take ?n rest = rest" by simp
    with True s 1(2) show ?thesis by (simp add: split_from.simps)
  next
    case False
    from 1(1)[OF 1(2) False] False s show ?thesis by simp
  qed
qed

lemma wrap_one_line:
  assumes "munge_whitespace s \<noteq> []" and "\<not> py_isspace (last (munge_whitespace s))"
    and "length ii + length (munge_whitespace s) \<le> width"
  shows "wrap rt s width ii si = Some [ii @ munge_whitespace s]"
proof -
  let ?m = "munge_whitespace s"
  let ?c = "split rt ?m"
  from split_from_last[OF assms(1), of rt "[]"]
  have c: "?c \<noteq> []" "last (last ?c) = last ?m" "last ?c \<noteq> []" by (simp_all add: split_def)
  have "last (last ?c) \<in> set (last ?c)" using c(3) by simp
  with c(2) assms(2) have nb: "\<not> is_blank (last ?c)" by (auto simp: is_blank_def list_all_iff)
  have cc: "concat ?c = ?m" by (simp add: split_def concat_split_from)
  have "0 < width" using assms(1,3) by (cases ?m) auto
  with wrap_chunks_one_line[OF c(1) _ nb, of ii width si] assms(3) cc show ?thesis
    by (simp add: wrap_def)
qed

lemma munge_plain:
  "list_all (\<lambda>c. \<not> tw_whitespace c \<or> c = SP) s \<Longrightarrow> expandtabs ts col s = s"
  "list_all (\<lambda>c. \<not> tw_whitespace c \<or> c = SP) s \<Longrightarrow> munge_whitespace s = s"
proof -
  assume a: "list_all (\<lambda>c. \<not> tw_whitespace c \<or> c = SP) s"
  then show e: "expandtabs ts col s = s" for ts col
    by (induction s arbitrary: col) (auto simp: tw_whitespace_def SP_def)
  have "map (\<lambda>c. if tw_whitespace c then SP else c) s = s"
    using a by (induction s) auto
  with e show "munge_whitespace s = s" by (simp add: munge_whitespace_def)
qed

subsection \<open>The example\<close>

lemma example_name_wrap:
  "wrap rt (lit ''Starlink Group 6-10'') MAX_LINE_LENGTH [] [] = Some [lit ''Starlink Group 6-10'']"
proof -
  have m: "munge_whitespace (lit ''Starlink Group 6-10'') = lit ''Starlink Group 6-10''"
    by (rule munge_plain) (simp add: lit_def tw_whitespace_def SP_def)
  show ?thesis
    using wrap_one_line[of "lit ''Starlink Group 6-10''" "[]" MAX_LINE_LENGTH rt "[]"]
    unfolding m by (simp add: lit_def py_isspace_def MAX_LINE_LENGTH_def)
qed

lemma example_description_wrap:
  "wrap rt (lit ''A Falcon 9 rocket will launch...'') MAX_LINE_LENGTH (lit ''    '') (lit ''    '')
     = Some [lit ''    A Falcon 9 rocket will launch...'']"
proof -
  have m: "munge_whitespace (lit ''A Falcon 9 rocket will launch...'') = lit ''A Falcon 9 rocket will launch...''"
    by (rule munge_plain) (simp add: lit_def tw_whitespace_def SP_def)
  show ?thesis
    using wrap_one_line[of "lit ''A Falcon 9 rocket will launch...''" "lit ''    ''" MAX_LINE_LENGTH rt "lit ''    ''"]
    unfolding m by (simp add: lit_def py_isspace_def MAX_LINE_LENGTH_def)
qed

lemma example_fields:
  "mission_name example_event = lit ''Starlink Group 6-10''"
  "location example_event = lit ''Cape Canaveral SFS, FL, USA''"
  "mission_description example_event = lit ''A Falcon 9 rocket will launch...''"
  "mission_type example_event = lit ''Communications''"
  "strftime example_runtime (mission_date example_event) DATE_FMAT_STR = lit ''Wed November 01, 2023 02:00 PM UTC''"
  by (simp_all add: example_event_def example_runtime_def example_strftime_def DATE_FMAT_STR_def lit_def)

subsection \<open>Sections and verbosity\<close>

text \<open>
  C3. For every event and every verbosity other than QUIET, the lines after the type line
  are one filler line and then the wrapped description, every wrapped line starting with
  the four-space indent and put, left-justified to the line length, between the borders;
  at QUIET the type line is the last line.
\<close>

theorem C3_event_description_block:
  "\<exists>names descs.
     wrap rt (mission_name e) MAX_LINE_LENGTH [] [] = Some names
     \<and> wrap rt (mission_description e) MAX_LINE_LENGTH (lit ''    '') (lit ''    '') = Some descs
     \<and> (\<forall>d\<in>set descs. prefix (lit ''    '') d \<and> length d \<le> MAX_LINE_LENGTH
            \<and> plain_line d = [BOX_V] @ d @ replicate (MAX_LINE_LENGTH - length d) SP @ [BOX_V])
     \<and> Event_display rt e verbosity =
         Some (map mission_name_line names
               @ [location_line (location e), FILLER,
                  date_line (strftime rt (mission_date e) DATE_FMAT_STR),
                  plain_line (lit ''    Event Type: '' @ mission_type e)]
               @ (if verbosity = QUIET then [] else FILLER # map plain_line descs))"
proof -
  obtain names descs where
    n: "wrap rt (mission_name e) MAX_LINE_LENGTH [] [] = Some names"
    and d: "wrap rt (mission_description e) MAX_LINE_LENGTH (lit ''    '') (lit ''    '') = Some descs"
    and f: "Event_display rt e verbosity =
         Some (map mission_name_line names
               @ [location_line (location e), FILLER,
                  date_line (strftime rt (mission_date e) DATE_FMAT_STR),
                  plain_line (lit ''    Event Type: '' @ mission_type e)]
               @ (if verbosity = QUIET then [] else FILLER # map plain_line descs))"
    by (rule Event_display_form)
  have "\<forall>d\<in>set descs. prefix (lit ''    '') d" using wrap_indent[OF d room_indent] .
  moreover have "\<forall>d\<in>set descs. length d \<le> MAX_LINE_LENGTH"
    using wrap_width[OF d room_indent room_indent] .
  moreover have "plain_line d = [BOX_V] @ d @ replicate (MAX_LINE_LENGTH - length d) SP @ [BOX_V]" for d
    by (simp add: plain_line_def ljust_def)
  ultimately show ?thesis using n d f by blast
qed

theorem C3_witness:
  "Event_display example_runtime example_event NORMAL =
     Some [mission_name_line (lit ''Starlink Group 6-10''),
           location_line (lit ''Cape Canaveral SFS, FL, USA''),
           FILLER,
           date_line (lit ''Wed November 01, 2023 02:00 PM UTC''),
           plain_line (lit ''    Event Type: Communications''),
           FILLER,
           plain_line (lit ''    A Falcon 9 rocket will launch...'')]"
  using C3_event_description_block[of example_runtime example_event NORMAL]
  by (auto simp: example_fields example_name_wrap example_description_wrap) (simp add: lit_def)

text \<open>
  C8. The example event at QUIET prints exactly five lines: the mission name, the
  location, a filler line, the date and the type, and nothing after them.
\<close>

theorem C8_example_event_quiet:
  "Event_display example_runtime example_event QUIET =
     Some [mission_name_line (lit ''Starlink Group 6-10''),
           location_line (lit ''Cape Canaveral SFS, FL, USA''),
           FILLER,
           date_line (lit ''Wed November 01, 2023 02:00 PM UTC''),
           plain_line (lit ''    Event Type: Communications'')]
   \<and> length (printed (Event_display example_runtime example_event QUIET)) = 5"
  by (simp add: Event_display_def example_fields example_name_wrap printed_def) (simp add: lit_def)

lemma example_launch_fields:
  "mission_name example_launch = lit ''Starlink Group 6-10''"
  "location example_launch = lit ''Cape Canaveral SFS, FL, USA''"
  "mission_description example_launch = lit ''A Falcon 9 rocket will launch...''"
  "mission_type example_launch = lit ''Communications''"
  "rocket example_launch = example_rocket"
  "strftime example_runtime (mission_date example_launch) DATE_FMAT_STR = lit ''Wed November 01, 2023 02:00 PM UTC''"
  by (simp_all add: example_launch_def example_runtime_def example_strftime_def DATE_FMAT_STR_def lit_def)

lemma length_Rocket_display: "length (Rocket_display rt r) = 13"
  by (simp add: Rocket_display_def)

text \<open>
  C4. For every launch the type line reads \<open>Launch Type:\<close> and the mission type; at
  VERBOSE a filler line and the rocket panel follow it; and at NORMAL as at VERBOSE,
  whether or not the panel was printed, a filler line and the wrapped description end
  the output, which QUIET leaves out.
\<close>

theorem C4_launch_sections:
  "\<exists>names descs.
     wrap rt (mission_name l) MAX_LINE_LENGTH [] [] = Some names
     \<and> wrap rt (mission_description l) MAX_LINE_LENGTH (lit ''    '') (lit ''    '') = Some descs
     \<and> Launch_display rt l verbosity =
         Some (map mission_name_line names
               @ [location_line (location l), FILLER,
                  date_line (strftime rt (mission_date l) DATE_FMAT_STR),
                  plain_line (lit ''    Launch Type: '' @ mission_type l)]
               @ (if verbosity = VERBOSE then FILLER # Rocket_display rt (rocket l) else [])
               @ (if verbosity = QUIET then [] else FILLER # map plain_line descs))"
proof -
  obtain names descs where
    "wrap rt (mission_name l) MAX_LINE_LENGTH [] [] = Some names"
    "wrap rt (mission_description l) MAX_LINE_LENGTH (lit ''    '') (lit ''    '') = Some descs"
    "Launch_display rt l verbosity =
         Some (map mission_name_line names
               @ [location_line (location l), FILLER,
                  date_line (strftime rt (mission_date l) DATE_FMAT_STR),
                  plain_line (lit ''    Launch Type: '' @ mission_type l)]
               @ (if verbosity = VERBOSE then FILLER # Rocket_display rt (rocket l) else [])
               @ (if verbosity = QUIET then [] else FILLER # map plain_line descs))"
    by (rule Launch_display_form)
  then show ?thesis by blast
qed

theorem C4_witness:
  "Launch_display example_runtime example_launch VERBOSE =
     Some ([mission_name_line (lit ''Starlink Group 6-10''),
            location_line (lit ''Cape Canaveral SFS, FL, USA''),
            FILLER,
            date_line (lit ''Wed November 01, 2023 02:00 PM UTC''),
            plain_line (lit ''    Launch Type: Communications''),
            FILLER]
           @ Rocket_display example_runtime example_rocket
           @ [FILLER, plain_line (lit ''    A Falcon 9 rocket will launch...'')])"
  using C4_launch_sections[of example_runtime example_launch VERBOSE]
  by (auto simp: example_launch_fields example_name_wrap example_description_wrap) (simp add: lit_def)




text \<open>
  C5, as the code has it. For every event the lines at QUIET are a proper initial part of
  the lines at NORMAL, and the lines at VERBOSE are the lines at NORMAL: an event has
  nothing more to show. For every launch the lines at QUIET are a proper initial part of
  the lines at NORMAL, which are, in order, a proper part of the lines at VERBOSE. The
  type line is among the lines at QUIET, so at every level.
\<close>

theorem C5_verbosity_levels:
  "(\<exists>q n. Event_display rt e QUIET = Some q \<and> Event_display rt e NORMAL = Some n
           \<and> Event_display rt e VERBOSE = Some n
           \<and> strict_prefix q n \<and> strict_subseq q n
           \<and> plain_line (lit ''    Event Type: '' @ mission_type e) \<in> set q)
   \<and> (\<exists>q n v. Launch_display rt l QUIET = Some q \<and> Launch_display rt l NORMAL = Some n
           \<and> Launch_display rt l VERBOSE = Some v
           \<and> strict_prefix q n \<and> strict_subseq q n \<and> strict_subseq n v
           \<and> plain_line (lit ''    Launch Type: '' @ mission_type l) \<in> set q)"
proof
  obtain names descs where
    n: "wrap rt (mission_name e) MAX_LINE_LENGTH [] [] = Some names"
    and d: "wrap rt (mission_description e) MAX_LINE_LENGTH (lit ''    '') (lit ''    '') = Some descs"
    using wrap_returns[OF room_name room_name, of rt] wrap_returns[OF room_indent room_indent, of rt]
    by blast
  let ?q = "map mission_name_line names
               @ [location_line (location e), FILLER,
                  date_line (strftime rt (mission_date e) DATE_FMAT_STR),
                  plain_line (lit ''    Event Type: '' @ mission_type e)]"
  let ?n = "?q @ FILLER # map plain_line descs"
  have 1: "Event_display rt e QUIET = Some ?q" "Event_display rt e NORMAL = Some ?n"
    "Event_display rt e VERBOSE = Some ?n"
    by (simp_all add: Event_display_def n d)
  have 2: "strict_prefix ?q ?n" by (rule strict_prefixI') (rule refl)
  then have 3: "strict_subseq ?q ?n"
    by (auto simp: strict_subseq_def strict_prefix_def)
  have 4: "plain_line (lit ''    Event Type: '' @ mission_type e) \<in> set ?q" by simp
  from 1 2 3 4
  show "\<exists>q n. Event_display rt e QUIET = Some q \<and> Event_display rt e NORMAL = Some n
           \<and> Event_display rt e VERBOSE = Some n
           \<and> strict_prefix q n \<and> strict_subseq q n
           \<and> plain_line (lit ''    Event Type: '' @ mission_type e) \<in> set q"
    by blast
next
  obtain names descs where
    n: "wrap rt (mission_name l) MAX_LINE_LENGTH [] [] = Some names"
    and d: "wrap rt (mission_description l) MAX_LINE_LENGTH (lit ''    '') (lit ''    '') = Some descs"
    using wrap_returns[OF room_name room_name, of rt] wrap_returns[OF room_indent room_indent, of rt]
    by blast
  let ?q = "map mission_name_line names
               @ [location_line (location l), FILLER,
                  date_line (strftime rt (mission_date l) DATE_FMAT_STR),
                  plain_line (lit ''    Launch Type: '' @ mission_type l)]"
  let ?t = "FILLER # map plain_line descs"
  let ?n = "?q @ ?t"
  let ?v = "?q @ (FILLER # Rocket_display rt (rocket l)) @ ?t"
  have 1: "Launch_display rt l QUIET = Some ?q" "Launch_display rt l NORMAL = Some ?n"
    "Launch_display rt l VERBOSE = Some ?v"
    by (simp_all add: Launch_display_def n d)
  have 2: "strict_prefix ?q ?n" by (rule strict_prefixI') (rule refl)
  then have 3: "strict_subseq ?q ?n"
    by (auto simp: strict_subseq_def strict_prefix_def)
  have "subseq ?t ((FILLER # Rocket_display rt (rocket l)) @ ?t)"
    by (rule subseq_drop_many) simp
  then have "subseq ?n ?v" by (simp only: subseq_append')
  moreover have "length ?n \<noteq> length ?v" by (simp add: length_Rocket_display)
  ultimately have 5: "strict_subseq ?n ?v" unfolding strict_subseq_def by metis
  have 4: "plain_line (lit ''    Launch Type: '' @ mission_type l) \<in> set ?q" by simp
  from 1 2 3 4 5
  show "\<exists>q n v. Launch_display rt l QUIET = Some q \<and> Launch_display rt l NORMAL = Some n
           \<and> Launch_display rt l VERBOSE = Some v
           \<and> strict_prefix q n \<and> strict_subseq q n \<and> strict_subseq n v
           \<and> plain_line (lit ''    Launch Type: '' @ mission_type l) \<in> set q"
    by blast
qed

theorem C5_witness:
  "length (printed (Event_display example_runtime example_event QUIET))
     < length (printed (Event_display example_runtime example_event NORMAL))
   \<and> printed (Event_display example_runtime example_event VERBOSE)
     = printed (Event_display example_runtime example_event NORMAL)
   \<and> length (printed (Launch_display example_runtime example_launch NORMAL))
     < length (printed (Launch_display example_runtime example_launch VERBOSE))"
proof -
  from C5_verbosity_levels[of example_runtime example_event example_launch]
  obtain q n q' n' v' where
    "Event_display example_runtime example_event QUIET = Some q"
    "Event_display example_runtime example_event NORMAL = Some n"
    "Event_display example_runtime example_event VERBOSE = Some n"
    "strict_prefix q n"
    "Launch_display example_runtime example_launch NORMAL = Some n'"
    "Launch_display example_runtime example_launch VERBOSE = Some v'"
    "strict_subseq n' v'"
    by blast
  moreover have "length n' < length v'"
  proof -
    from \<open>strict_subseq n' v'\<close> have s: "subseq n' v'" and ne: "n' \<noteq> v'"
      by (simp_all add: strict_subseq_def)
    from s have "length n' \<le> length v'" by (rule list_emb_length)
    moreover from s ne have "length n' \<noteq> length v'" using subseq_same_length by blast
    ultimately show ?thesis by simp
  qed
  ultimately show ?thesis
    by (simp add: printed_def prefix_length_less)
qed

text \<open>The claim as the specification words it fails for an event: NORMAL and VERBOSE
  print the same lines.\<close>

theorem C5_counterexample:
  "\<not> (\<exists>n v. Event_display example_runtime example_event NORMAL = Some n
            \<and> Event_display example_runtime example_event VERBOSE = Some v
            \<and> strict_subseq n v)"
proof -
  have "Event_display example_runtime example_event VERBOSE
        = Event_display example_runtime example_event NORMAL"
    by (simp add: Event_display_def split: option.splits)
  then show ?thesis by (auto simp: strict_subseq_def)
qed

subsection \<open>Empty and whitespace texts\<close>



subsection \<open>What wrapping keeps\<close>

lemma word_end_plain:
  "list_all (\<lambda>c. \<not> tw_whitespace c \<and> c \<noteq> HYPHEN) rest \<Longrightarrow> word_end rt behind rest = length rest"
  by (induction rest arbitrary: behind) (auto simp: hyphenated_def em_dash_ahead_def)

lemma split_plain_word:
  assumes "s \<noteq> []" and "list_all (\<lambda>c. \<not> tw_whitespace c \<and> c \<noteq> HYPHEN) s"
  shows "split rt s = [s]"
proof -
  obtain c cs where s: "s = c # cs" using assms(1) by (cases s) auto
  with assms(2) have "match_len rt [] s = length s"
    by (simp add: match_len_def em_dash_between_def word_end_plain)
  moreover have "split_from rt [] s
      = take (match_len rt [] s) s
          # split_from rt (rev (take (match_len rt [] s) s) @ []) (drop (match_len rt [] s) s)"
    using assms(1) by (subst split_from.simps) simp
  ultimately show ?thesis
    by (simp add: split_def split_from.simps[of rt _ "[]"])
qed

lemma long_word_wrap:
  "wrap rt long_word MAX_LINE_LENGTH [] [] = Some [replicate 88 97, [97]]"
proof -
  have p: "list_all (\<lambda>c. \<not> tw_whitespace c \<and> c \<noteq> HYPHEN) long_word"
    by (simp add: long_word_def list_all_iff tw_whitespace_def HYPHEN_def)
  then have m: "munge_whitespace long_word = long_word"
    by (intro munge_plain) (simp add: list_all_iff)
  have s: "split rt long_word = [long_word]"
    by (rule split_plain_word[OF _ p]) (simp add: long_word_def)
  have h: "HYPHEN \<notin> set long_word" using p by (auto simp: list_all_iff)
  have nb: "\<not> is_blank (replicate 88 97)" "\<not> is_blank [97]"
    by (simp_all add: is_blank_def list_all_iff py_isspace_def)
  have l: "length long_word = 89" "take 88 long_word = replicate 88 97" "drop 88 long_word = [97]"
    by (simp_all add: long_word_def)
  have 1: "wrap_line 88 [] [] [long_word] [] = ([ [97] ], [replicate 88 97])"
    using nb by (simp add: wrap_line_def handle_long_word_def Let_def rfind_None[OF h] l)
  have 2: "wrap_line 88 [] [] [ [97] ] [replicate 88 97] = ([], [replicate 88 97, [97]])"
    using nb by (simp add: wrap_line_def Let_def)
  have "wrap_chunks 88 [] [] [long_word] [] = Some [replicate 88 97, [97]]"
    by (simp add: wrap_chunks.simps[of 88 "[]" "[]" "[long_word]"] 1
        wrap_chunks.simps[of 88 "[]" "[]" "[ [97] ]"] 2 wrap_chunks.simps[of 88 "[]" "[]" "[]"]
        pending_def l)
  then show ?thesis by (simp add: wrap_def m s MAX_LINE_LENGTH_def)
qed

lemma words_from_plain:
  "list_all (\<lambda>c. \<not> py_isspace c) s \<Longrightarrow> words_from cur (s @ r) = words_from (cur @ s) r"
  by (induction s arbitrary: cur) auto

text \<open>
  C6, as the code has it. For every text wrapped at a width that leaves room after the
  indents (the renderer wraps at 88 with no indent and with four spaces), \<open>wrap\<close> returns,
  every line it returns is at most the width long, indent included, and the lines hold,
  in order, exactly the characters of the text that are not whitespace: wrapping changes
  whitespace and line breaks only. A word longer than a line is cut, so the lines joined
  with single spaces need not be the text again.
\<close>

theorem C6_wrapped_lines:
  assumes "length ii < width" and "length si < width" and "is_blank ii" and "is_blank si"
  shows "\<exists>ls. wrap rt s width ii si = Some ls
              \<and> (\<forall>l\<in>set ls. length l \<le> width)
              \<and> visible (concat ls) = visible s"
proof -
  obtain ls where w: "wrap rt s width ii si = Some ls"
    using wrap_returns[OF assms(1,2)] by blast
  from wrap_width[OF w assms(1,2)] wrap_visible[OF w assms] w show ?thesis by blast
qed

theorem C6_witness:
  "\<exists>ls. wrap example_runtime (mission_description example_event) MAX_LINE_LENGTH
           (lit ''    '') (lit ''    '') = Some ls
        \<and> list_all (\<lambda>l. length l \<le> MAX_LINE_LENGTH) ls
        \<and> visible (concat ls) = visible (mission_description example_event)"
  using C6_wrapped_lines[OF room_indent room_indent is_blank_indent is_blank_indent,
      of example_runtime "mission_description example_event"]
  by (simp add: list_all_iff)

text \<open>The word of 89 letters comes back as two lines, and so as two words.\<close>

theorem C6_counterexample:
  "\<not> (\<exists>ls. wrap example_runtime long_word MAX_LINE_LENGTH [] [] = Some ls
            \<and> py_words (join_spaces ls) = py_words long_word)"
proof -
  have a: "list_all (\<lambda>c. \<not> py_isspace c) (replicate n 97)" for n
    by (simp add: list_all_iff py_isspace_def)
  have "py_words long_word = [long_word]"
    using words_from_plain[OF a, of "[]" 89 "[]"] by (simp add: py_words_def long_word_def)
  moreover have "py_words (join_spaces [replicate 88 97, [97]]) = [replicate 88 97, [97]]"
    using words_from_plain[OF a, of "[]" 88 "SP # [97]"]
    by (simp add: py_words_def py_isspace_def SP_def)
  ultimately show ?thesis by (simp add: long_word_wrap)
qed

subsection \<open>Every line between the borders\<close>





















subsection \<open>The codes of a line\<close>



lemma styled_within_plain: "styled_within D x \<Longrightarrow> ESC \<notin> D \<Longrightarrow> well_styled x"
  unfolding styled_within_def well_styled_def by blast














end
